theory Spec2Isabelle
  imports Main "HOL-Library.Word"
begin

section \<open>Data model\<close>

text \<open>
  The scheduler core of \<^verbatim>\<open>pa2.c\<close> works on four globals: \<^verbatim>\<open>current\<close>, the ready queue,
  the resource table and, through pointers, the process records. The two further
  globals the file declares, \<^verbatim>\<open>ticks\<close> and \<^verbatim>\<open>quiet\<close>, are part of the state as well.

  A \<^verbatim>\<open>struct process *\<close> is a reference; \<^verbatim>\<open>NULL\<close> is \<open>None\<close> of an option.
\<close>

type_synonym pref = nat

text \<open>
  Modelled from the spec: \<^verbatim>\<open>process.h\<close> (the declaration of \<^verbatim>\<open>struct process\<close> and of the
  status enumeration) is not among the sources. The record holds the fields that
  \<^verbatim>\<open>pa2.c\<close> reads and writes (\<^verbatim>\<open>status\<close>, \<^verbatim>\<open>age\<close>, \<^verbatim>\<open>lifespan\<close>); the embedded
  \<^verbatim>\<open>list\<close> node is represented by the membership of the process in a queue (below).
  The status has the three values \<^verbatim>\<open>pa2.c\<close> names and a fourth for a terminated
  process, which \<^verbatim>\<open>pa2.c\<close> never reads or writes.
  The integer type of \<^verbatim>\<open>age\<close> and \<^verbatim>\<open>lifespan\<close> is a parameter \<open>'n\<close> of the model: the
  code only compares and subtracts these fields, so every result below holds for any
  type with a subtraction and a linear order (an \<^verbatim>\<open>unsigned int\<close> is \<open>32 word\<close>).
\<close>

datatype process_status = PROCESS_READY | PROCESS_RUNNING | PROCESS_WAIT | PROCESS_EXIT

record 'n process =
  status :: process_status
  age :: 'n
  lifespan :: 'n

text \<open>
  Modelled from the spec: \<^verbatim>\<open>resource.h\<close> is not among the sources. A resource has an
  owner slot and a wait queue, the two fields \<^verbatim>\<open>pa2.c\<close> uses.
\<close>

record resource =
  owner :: "pref option"
  waitqueue :: "pref list"

record 'n state =
  current :: "pref option"
  readyqueue :: "pref list"
  resources :: "resource list"
  procs :: "pref \<Rightarrow> 'n process"
  ticks :: "32 word"
  quiet :: bool

text \<open>
  What can go wrong in the C code is a value of the model: a read through a \<^verbatim>\<open>NULL\<close>
  pointer, an access outside \<^verbatim>\<open>resources[NR_RESOURCES]\<close>, and the two assertions of
  \<^verbatim>\<open>fcfs_release\<close>, which abort the program.
\<close>

datatype fault =
    NullDereference
  | OutOfBounds
  | OwnershipViolation
  | WaiterNotWaiting

subsection \<open>Queues\<close>

text \<open>
  Modelled from the spec: \<^verbatim>\<open>list_head.h\<close> is not among the sources. A queue headed by a
  \<^verbatim>\<open>struct list_head\<close> is the sequence of the processes linked on it, head first
  (the spec's design notes: each container holds an ordered sequence of process
  indices). \<^verbatim>\<open>list_del_init(&p->list)\<close> unlinks \<open>p\<close> from the queue it is linked on; at
  every call in \<^verbatim>\<open>pa2.c\<close> the process has just been read from a known queue, and the
  model removes it from that queue. \<^verbatim>\<open>list_first_entry\<close> is only called on a queue
  that \<^verbatim>\<open>list_empty\<close> has found non-empty.
\<close>

definition list_empty :: "pref list \<Rightarrow> bool" where
  "list_empty q = (case q of [] \<Rightarrow> True | _ # _ \<Rightarrow> False)"

definition list_first_entry :: "pref list \<Rightarrow> pref" where
  "list_first_entry q = hd q"

definition list_add :: "pref \<Rightarrow> pref list \<Rightarrow> pref list" where
  "list_add p q = p # q"

definition list_add_tail :: "pref \<Rightarrow> pref list \<Rightarrow> pref list" where
  "list_add_tail p q = q @ [p]"

definition list_del_init :: "pref \<Rightarrow> pref list \<Rightarrow> pref list" where
  "list_del_init p q = remove1 p q"

section \<open>Default FCFS resource protocol\<close>

text \<open>
  \<^verbatim>\<open>struct resource *r = resources + resource_id\<close>: the table is the list
  \<open>resources s\<close>, its length the constant \<^verbatim>\<open>NR_RESOURCES\<close> (declared in the absent
  \<^verbatim>\<open>resource.h\<close>); an index outside the table is the fault \<open>OutOfBounds\<close>.
\<close>

definition fcfs_acquire :: "int \<Rightarrow> 'n state \<Rightarrow> fault + (bool \<times> 'n state)" where
  "fcfs_acquire resource_id s =
     (if resource_id < 0 \<or> int (length (resources s)) \<le> resource_id then Inl OutOfBounds
      else
        let i = nat resource_id; r = resources s ! i in
        (case owner r of
           None \<Rightarrow> Inr (True, s\<lparr>resources := (resources s)[i := r\<lparr>owner := current s\<rparr>]\<rparr>)
         | Some _ \<Rightarrow>
             (case current s of
                None \<Rightarrow> Inl NullDereference
              | Some c \<Rightarrow>
                  Inr (False,
                    s\<lparr>procs := (procs s)(c := (procs s c)\<lparr>status := PROCESS_WAIT\<rparr>),
                      resources :=
                        (resources s)[i := r\<lparr>waitqueue := list_add_tail c (waitqueue r)\<rparr>]\<rparr>))))"

text \<open>
  \<^verbatim>\<open>fcfs_release\<close> returns nothing; the model returns \<open>()\<close> and the new state. The first
  assertion is \<open>OwnershipViolation\<close>, the second \<open>WaiterNotWaiting\<close>.
\<close>

definition fcfs_release :: "int \<Rightarrow> 'n state \<Rightarrow> fault + (unit \<times> 'n state)" where
  "fcfs_release resource_id s =
     (if resource_id < 0 \<or> int (length (resources s)) \<le> resource_id then Inl OutOfBounds
      else
        let i = nat resource_id; r = resources s ! i in
        if owner r \<noteq> current s then Inl OwnershipViolation
        else if \<not> list_empty (waitqueue r) then
          (let waiter = list_first_entry (waitqueue r) in
           if status (procs s waiter) \<noteq> PROCESS_WAIT then Inl WaiterNotWaiting
           else
             Inr ((),
                  s\<lparr>readyqueue := list_add_tail waiter (readyqueue s),
                    resources :=
                      (resources s)[i := r\<lparr>owner := None,
                                             waitqueue := list_del_init waiter (waitqueue r)\<rparr>],
                    procs := (procs s)(waiter := (procs s waiter)\<lparr>status := PROCESS_READY\<rparr>)\<rparr>))
        else Inr ((), s\<lparr>resources := (resources s)[i := r\<lparr>owner := None\<rparr>]\<rparr>))"

section \<open>FIFO scheduler\<close>

text \<open>The label \<^verbatim>\<open>pick_next\<close> of \<^verbatim>\<open>fifo_schedule\<close>: detach and return the first entry.\<close>

definition fifo_pick_next :: "'n state \<Rightarrow> fault + (pref option \<times> 'n state)" where
  "fifo_pick_next s =
     (if \<not> list_empty (readyqueue s) then
        (let next = list_first_entry (readyqueue s) in
         Inr (Some next, s\<lparr>readyqueue := list_del_init next (readyqueue s)\<rparr>))
      else Inr (None, s))"

definition fifo_schedule :: "('n::ord) state \<Rightarrow> fault + (pref option \<times> 'n state)" where
  "fifo_schedule s =
     (case current s of
        None \<Rightarrow> fifo_pick_next s
      | Some c \<Rightarrow>
          if status (procs s c) = PROCESS_WAIT then fifo_pick_next s
          else if age (procs s c) < lifespan (procs s c) then Inr (Some c, s)
          else fifo_pick_next s)"

definition fifo_initialize :: "'n state \<Rightarrow> int \<times> 'n state" where
  "fifo_initialize s = (0, s)"

definition fifo_finalize :: "'n state \<Rightarrow> 'n state" where
  "fifo_finalize s = s"

section \<open>SJF scheduler\<close>

definition sjf_initialize :: "'n state \<Rightarrow> int \<times> 'n state" where
  "sjf_initialize s = (0, s)"

definition sjf_finalize :: "'n state \<Rightarrow> 'n state" where
  "sjf_finalize s = s"

text \<open>
  The loop \<^verbatim>\<open>list_for_each_entry(next, &readyqueue, list)\<close> of \<^verbatim>\<open>sjf_schedule\<close>: it walks
  the whole ready queue and keeps the best candidate in the global \<^verbatim>\<open>current\<close>
  (\<open>cur\<close> here); \<open>ps\<close> are the process records, which the loop does not change.
\<close>

fun sjf_scan :: "(pref \<Rightarrow> ('n::ord) process) \<Rightarrow> pref \<Rightarrow> pref list \<Rightarrow> pref" where
  "sjf_scan ps cur [] = cur"
| "sjf_scan ps cur (next # rest) =
     sjf_scan ps (if lifespan (ps cur) > lifespan (ps next) then next else cur) rest"

text \<open>
  The label \<^verbatim>\<open>skip\<close>. The code assigns the candidate to the global \<^verbatim>\<open>current\<close>, so
  the state returned has \<open>current\<close> set to the process picked.
\<close>

definition sjf_skip :: "('n::ord) state \<Rightarrow> fault + (pref option \<times> 'n state)" where
  "sjf_skip s =
     (if \<not> list_empty (readyqueue s) then
        (let cur = sjf_scan (procs s) (list_first_entry (readyqueue s)) (readyqueue s) in
         Inr (Some cur,
              s\<lparr>current := Some cur, readyqueue := list_del_init cur (readyqueue s)\<rparr>))
      else Inr (None, s))"

definition sjf_schedule :: "('n::ord) state \<Rightarrow> fault + (pref option \<times> 'n state)" where
  "sjf_schedule s =
     (case current s of
        None \<Rightarrow> sjf_skip s
      | Some c \<Rightarrow>
          if status (procs s c) = PROCESS_WAIT then sjf_skip s
          else if age (procs s c) < lifespan (procs s c) then Inr (Some c, s)
          else sjf_skip s)"

section \<open>SRTF scheduler\<close>

definition srtf_initialize :: "'n state \<Rightarrow> int \<times> 'n state" where
  "srtf_initialize s = (0, s)"

definition srtf_finalize :: "'n state \<Rightarrow> 'n state" where
  "srtf_finalize s = s"

text \<open>The loop of \<^verbatim>\<open>srtf_schedule\<close>, with the local \<^verbatim>\<open>init\<close> as the best candidate.\<close>

fun srtf_scan :: "(pref \<Rightarrow> ('n::{minus,ord}) process) \<Rightarrow> pref \<Rightarrow> pref list \<Rightarrow> pref" where
  "srtf_scan ps init [] = init"
| "srtf_scan ps init (next # rest) =
     srtf_scan ps
       (if lifespan (ps init) - age (ps init) > lifespan (ps next) - age (ps next)
        then next else init) rest"

text \<open>
  With an empty ready queue the code evaluates
  \<^verbatim>\<open>current != NULL || current->status == PROCESS_RUNNING\<close>: when \<^verbatim>\<open>current\<close> is \<^verbatim>\<open>NULL\<close>
  the left operand is false and the right one reads \<^verbatim>\<open>current->status\<close> through the
  null pointer; when \<^verbatim>\<open>current\<close> is not \<^verbatim>\<open>NULL\<close> the condition holds whatever the
  status is. The final \<^verbatim>\<open>return init\<close> returns \<^verbatim>\<open>NULL\<close> there.
\<close>

definition srtf_schedule :: "('n::{minus,ord}) state \<Rightarrow> fault + (pref option \<times> 'n state)" where
  "srtf_schedule s =
     (if \<not> list_empty (readyqueue s) then
        (let init = srtf_scan (procs s) (list_first_entry (readyqueue s)) (readyqueue s) in
         case current s of
           None \<Rightarrow> Inr (Some init, s\<lparr>readyqueue := list_del_init init (readyqueue s)\<rparr>)
         | Some c \<Rightarrow>
             if status (procs s c) = PROCESS_WAIT then
               Inr (Some init, s\<lparr>readyqueue := list_del_init init (readyqueue s)\<rparr>)
             else if age (procs s c) < lifespan (procs s c) then
               (if lifespan (procs s init) - age (procs s init)
                     < lifespan (procs s c) - age (procs s c) then
                  Inr (Some init,
                       s\<lparr>readyqueue := list_add c (list_del_init init (readyqueue s))\<rparr>)
                else Inr (Some c, s))
             else Inr (Some init, s\<lparr>readyqueue := list_del_init init (readyqueue s)\<rparr>))
      else
        (case current s of
           None \<Rightarrow> Inl NullDereference
         | Some c \<Rightarrow>
             if age (procs s c) < lifespan (procs s c) then Inr (Some c, s)
             else Inr (None, s)))"

section \<open>The scheduler tables\<close>

text \<open>
  Modelled from the spec: \<^verbatim>\<open>sched.h\<close> (the declaration of \<^verbatim>\<open>struct scheduler\<close>) is not
  among the sources. The fields are those the designated initialisers of \<^verbatim>\<open>pa2.c\<close>
  name; a callback the initialiser leaves out is a null function pointer, \<open>None\<close>.
\<close>

record 'n scheduler =
  name :: string
  acquire :: "(int \<Rightarrow> 'n state \<Rightarrow> fault + (bool \<times> 'n state)) option"
  release :: "(int \<Rightarrow> 'n state \<Rightarrow> fault + (unit \<times> 'n state)) option"
  initialize :: "('n state \<Rightarrow> int \<times> 'n state) option"
  finalize :: "('n state \<Rightarrow> 'n state) option"
  schedule :: "('n state \<Rightarrow> fault + (pref option \<times> 'n state)) option"

definition fifo_scheduler :: "('n::ord) scheduler" where
  "fifo_scheduler =
     \<lparr>name = ''FIFO'', acquire = Some fcfs_acquire, release = Some fcfs_release,
      initialize = Some fifo_initialize, finalize = Some fifo_finalize,
      schedule = Some fifo_schedule\<rparr>"

definition sjf_scheduler :: "('n::ord) scheduler" where
  "sjf_scheduler =
     \<lparr>name = ''Shortest-Job First'', acquire = Some fcfs_acquire,
      release = Some fcfs_release, initialize = Some sjf_initialize,
      finalize = Some sjf_finalize, schedule = Some sjf_schedule\<rparr>"

definition srtf_scheduler :: "('n::{minus,ord}) scheduler" where
  "srtf_scheduler =
     \<lparr>name = ''Shortest Remaining Time First'', acquire = Some fcfs_acquire,
      release = Some fcfs_release, initialize = Some srtf_initialize,
      finalize = Some srtf_finalize, schedule = Some srtf_schedule\<rparr>"

definition rr_scheduler :: "'n scheduler" where
  "rr_scheduler =
     \<lparr>name = ''Round-Robin'', acquire = Some fcfs_acquire, release = Some fcfs_release,
      initialize = None, finalize = None, schedule = None\<rparr>"

definition prio_scheduler :: "'n scheduler" where
  "prio_scheduler =
     \<lparr>name = ''Priority'', acquire = None, release = None,
      initialize = None, finalize = None, schedule = None\<rparr>"

definition pip_scheduler :: "'n scheduler" where
  "pip_scheduler =
     \<lparr>name = ''Priority + Priority Inheritance Protocol'', acquire = None, release = None,
      initialize = None, finalize = None, schedule = None\<rparr>"

text \<open>
  Modelled from the spec: the initialisation of a configured policy belongs to the
  Simulation Driver, which is not among the sources. Spec, section 7: a policy variant
  with missing callbacks must be rejected at initialisation time with the
  configuration error \<open>PolicyNotImplemented\<close>; a complete variant is initialised by its
  \<open>initialize\<close> callback.
\<close>

datatype config_error = PolicyNotImplemented

definition policy_init :: "'n scheduler \<Rightarrow> 'n state \<Rightarrow> config_error + (int \<times> 'n state)" where
  "policy_init sch s =
     (case (schedule sch, initialize sch, finalize sch, acquire sch, release sch) of
        (Some _, Some init, Some _, Some _, Some _) \<Rightarrow> Inr (init s)
      | _ \<Rightarrow> Inl PolicyNotImplemented)"

section \<open>Runs of core operations\<close>

text \<open>
  The five operations of \<^verbatim>\<open>pa2.c\<close> under one type, and their sequential composition:
  a run stops at the first fault, as the C program does.
\<close>

datatype operation =
    Fcfs_acquire int
  | Fcfs_release int
  | Fifo_schedule
  | Sjf_schedule
  | Srtf_schedule

datatype reply = Acquired bool | Released | Scheduled "pref option"

fun exec_op :: "operation \<Rightarrow> ('n::{minus,ord}) state \<Rightarrow> fault + (reply \<times> 'n state)" where
  "exec_op (Fcfs_acquire rid) s = map_sum id (map_prod Acquired id) (fcfs_acquire rid s)"
| "exec_op (Fcfs_release rid) s = map_sum id (map_prod (\<lambda>_. Released) id) (fcfs_release rid s)"
| "exec_op Fifo_schedule s = map_sum id (map_prod Scheduled id) (fifo_schedule s)"
| "exec_op Sjf_schedule s = map_sum id (map_prod Scheduled id) (sjf_schedule s)"
| "exec_op Srtf_schedule s = map_sum id (map_prod Scheduled id) (srtf_schedule s)"

fun exec_ops :: "operation list \<Rightarrow> ('n::{minus,ord}) state \<Rightarrow> fault + (reply list \<times> 'n state)" where
  "exec_ops [] s = Inr ([], s)"
| "exec_ops (x # xs) s =
     (case exec_op x s of
        Inl e \<Rightarrow> Inl e
      | Inr (r, s') \<Rightarrow>
          (case exec_ops xs s' of
             Inl e \<Rightarrow> Inl e
           | Inr (rs, s'') \<Rightarrow> Inr (r # rs, s'')))"

text \<open>
  Two states have the same core when they agree on the process records, the resource
  table, the ready queue and \<open>current\<close>; they may differ in \<open>ticks\<close> and \<open>quiet\<close>. Two
  outcomes are the same when both are the same fault, or both return the same value and
  states with the same core.
\<close>

definition same_core :: "'n state \<Rightarrow> 'n state \<Rightarrow> bool" where
  "same_core s t \<longleftrightarrow>
     current s = current t \<and> readyqueue s = readyqueue t
     \<and> resources s = resources t \<and> procs s = procs t"

fun same_outcome :: "fault + ('r \<times> 'n state) \<Rightarrow> fault + ('r \<times> 'n state) \<Rightarrow> bool" where
  "same_outcome (Inl e) (Inl e') = (e = e')"
| "same_outcome (Inr (x, s)) (Inr (y, t)) = (x = y \<and> same_core s t)"
| "same_outcome _ _ = False"

section \<open>Specification vocabulary\<close>

text \<open>A process may run: it is not waiting for a resource and has lifetime left.\<close>

definition eligible :: "('n::ord) process \<Rightarrow> bool" where
  "eligible p \<longleftrightarrow> status p \<noteq> PROCESS_WAIT \<and> age p < lifespan p"

text \<open>The remaining time of a process record, as the code computes it.\<close>

definition remaining :: "('n::minus) process \<Rightarrow> 'n" where
  "remaining p = lifespan p - age p"

text \<open>
  Position \<open>i\<close> holds the first minimum of \<open>k\<close> in \<open>xs\<close>: no entry has a smaller key, and
  every earlier entry has a strictly larger one.
\<close>

definition first_min :: "('a \<Rightarrow> 'k::linorder) \<Rightarrow> 'a list \<Rightarrow> nat \<Rightarrow> bool" where
  "first_min k xs i \<longleftrightarrow>
     i < length xs \<and> (\<forall>j<length xs. k (xs ! i) \<le> k (xs ! j)) \<and> (\<forall>j<i. k (xs ! i) < k (xs ! j))"

text \<open>The scan of both loops, over an arbitrary key: used in the proofs only.\<close>

fun scan_by :: "('a \<Rightarrow> 'k::linorder) \<Rightarrow> 'a \<Rightarrow> 'a list \<Rightarrow> 'a" where
  "scan_by k cur [] = cur"
| "scan_by k cur (x # xs) = scan_by k (if k cur > k x then x else cur) xs"

section \<open>Example states\<close>

text \<open>A small population used to run the definitions: four processes, two resources.\<close>

definition demo_procs :: "pref \<Rightarrow> (32 word) process" where
  "demo_procs =
     (\<lambda>_. \<lparr>status = PROCESS_READY, age = 0, lifespan = 4\<rparr>)
       (1 := \<lparr>status = PROCESS_RUNNING, age = 1, lifespan = 6\<rparr>,
        2 := \<lparr>status = PROCESS_READY, age = 0, lifespan = 3\<rparr>,
        3 := \<lparr>status = PROCESS_READY, age = 0, lifespan = 3\<rparr>)"

definition demo_state :: "(32 word) state" where
  "demo_state =
     \<lparr>current = Some 1, readyqueue = [0, 2, 3],
      resources = [\<lparr>owner = None, waitqueue = []\<rparr>, \<lparr>owner = Some 2, waitqueue = []\<rparr>],
      procs = demo_procs, ticks = 7, quiet = False\<rparr>"

text \<open>Process 1 owns resource 0; processes 2 and 3 wait for it, in this order.\<close>

definition release_state :: "(32 word) state" where
  "release_state =
     \<lparr>current = Some 1, readyqueue = [0],
      resources = [\<lparr>owner = Some 1, waitqueue = [2, 3]\<rparr>, \<lparr>owner = None, waitqueue = []\<rparr>],
      procs = demo_procs
        (2 := \<lparr>status = PROCESS_WAIT, age = 1, lifespan = 3\<rparr>,
         3 := \<lparr>status = PROCESS_WAIT, age = 2, lifespan = 3\<rparr>),
      ticks = 9, quiet = True\<rparr>"

text \<open>
  As \<open>release_state\<close>, but the two processes on the wait queue of resource 0 are not
  in the wait status (process 2 is \<open>PROCESS_READY\<close>).
\<close>

definition stale_waiter_state :: "(32 word) state" where
  "stale_waiter_state = release_state\<lparr>procs := demo_procs\<rparr>"

text \<open>
  A deadlock: process 1 owns resource 0 and waits for resource 1, which process 2 owns;
  process 2 waits for resource 0. Nobody is ready, and the current process, 1, has just
  been denied resource 1.
\<close>

definition deadlock_state :: "(32 word) state" where
  "deadlock_state =
     \<lparr>current = Some 1, readyqueue = [],
      resources = [\<lparr>owner = Some 1, waitqueue = [2]\<rparr>, \<lparr>owner = Some 2, waitqueue = [1]\<rparr>],
      procs = demo_procs
        (1 := \<lparr>status = PROCESS_WAIT, age = 2, lifespan = 6\<rparr>,
         2 := \<lparr>status = PROCESS_WAIT, age = 1, lifespan = 3\<rparr>),
      ticks = 4, quiet = False\<rparr>"

text \<open>The state before the first process is forked: nothing to run.\<close>

definition idle_state :: "(32 word) state" where
  "idle_state =
     \<lparr>current = None, readyqueue = [],
      resources = [\<lparr>owner = None, waitqueue = []\<rparr>, \<lparr>owner = None, waitqueue = []\<rparr>],
      procs = demo_procs, ticks = 0, quiet = False\<rparr>"

section \<open>Properties of the resource protocol\<close>

text \<open>
  C1. A call of \<open>acquire\<close> by the current process on a resource of the table: if the
  owner slot is empty the current process becomes the owner and the call returns true;
  otherwise the status of the current process is set to \<open>PROCESS_WAIT\<close>, the process is
  appended to the tail of the wait queue of the resource, and the call returns false.
\<close>

theorem fcfs_acquire_spec:
  assumes "0 \<le> rid" and "rid < int (length (resources s))" and "current s = Some c"
  shows "(owner (resources s ! nat rid) = None \<longrightarrow>
           (\<exists>s'. fcfs_acquire rid s = Inr (True, s')
              \<and> owner (resources s' ! nat rid) = Some c))
       \<and> (owner (resources s ! nat rid) \<noteq> None \<longrightarrow>
           (\<exists>s'. fcfs_acquire rid s = Inr (False, s')
              \<and> status (procs s' c) = PROCESS_WAIT
              \<and> waitqueue (resources s' ! nat rid) = waitqueue (resources s ! nat rid) @ [c]))"
  using assms by (auto simp: fcfs_acquire_def Let_def list_add_tail_def split: option.splits)

theorem fcfs_acquire_spec_witness:
  "fcfs_acquire 0 demo_state
     = Inr (True, demo_state\<lparr>resources :=
         [\<lparr>owner = Some 1, waitqueue = []\<rparr>, \<lparr>owner = Some 2, waitqueue = []\<rparr>]\<rparr>)
   \<and> (\<exists>s'. fcfs_acquire 1 demo_state = Inr (False, s')
         \<and> status (procs s' 1) = PROCESS_WAIT
         \<and> waitqueue (resources s' ! 1) = [1])"
proof -
  have h: "(0::int) \<le> 1" "(1::int) < int (length (resources demo_state))"
    "current demo_state = Some 1" "owner (resources demo_state ! nat 1) \<noteq> None"
    by (simp_all add: demo_state_def)
  have "fcfs_acquire 0 demo_state
     = Inr (True, demo_state\<lparr>resources :=
         [\<lparr>owner = Some 1, waitqueue = []\<rparr>, \<lparr>owner = Some 2, waitqueue = []\<rparr>]\<rparr>)"
    by (simp add: fcfs_acquire_def demo_state_def)
  moreover have "\<exists>s'. fcfs_acquire 1 demo_state = Inr (False, s')
         \<and> status (procs s' 1) = PROCESS_WAIT
         \<and> waitqueue (resources s' ! 1) = [1]"
    using fcfs_acquire_spec [OF h(1) h(2) h(3)] h(4) by (simp add: demo_state_def)
  ultimately show ?thesis by simp
qed

text \<open>
  C10. A call of \<open>acquire\<close> that returns true changes the owner slot of that resource to
  the current process and nothing else: \<open>current\<close>, the ready queue, every process
  record (status and age included), every wait queue and every other resource are as
  before.
\<close>

theorem fcfs_acquire_granted_frame:
  assumes "fcfs_acquire rid s = Inr (True, s')"
  shows "s' = s\<lparr>resources := (resources s)[nat rid := (resources s ! nat rid)\<lparr>owner := current s\<rparr>]\<rparr>
       \<and> current s' = current s \<and> readyqueue s' = readyqueue s \<and> procs s' = procs s
       \<and> ticks s' = ticks s \<and> quiet s' = quiet s
       \<and> length (resources s') = length (resources s)
       \<and> owner (resources s' ! nat rid) = current s
       \<and> waitqueue (resources s' ! nat rid) = waitqueue (resources s ! nat rid)
       \<and> (\<forall>j. j \<noteq> nat rid \<longrightarrow> resources s' ! j = resources s ! j)"
  using assms
  by (auto simp: fcfs_acquire_def Let_def split: option.splits if_splits)

theorem fcfs_acquire_granted_frame_witness:
  "fcfs_acquire 0 demo_state = Inr (True, demo_state\<lparr>resources :=
         [\<lparr>owner = Some 1, waitqueue = []\<rparr>, \<lparr>owner = Some 2, waitqueue = []\<rparr>]\<rparr>)
   \<and> procs (demo_state\<lparr>resources :=
         [\<lparr>owner = Some 1, waitqueue = []\<rparr>, \<lparr>owner = Some 2, waitqueue = []\<rparr>]\<rparr>)
       = procs demo_state
   \<and> readyqueue (demo_state\<lparr>resources :=
         [\<lparr>owner = Some 1, waitqueue = []\<rparr>, \<lparr>owner = Some 2, waitqueue = []\<rparr>]\<rparr>)
       = readyqueue demo_state"
proof -
  have h: "fcfs_acquire 0 demo_state = Inr (True, demo_state\<lparr>resources :=
         [\<lparr>owner = Some 1, waitqueue = []\<rparr>, \<lparr>owner = Some 2, waitqueue = []\<rparr>]\<rparr>)"
    by (simp add: fcfs_acquire_def demo_state_def)
  show ?thesis using h fcfs_acquire_granted_frame [OF h] by simp
qed

text \<open>
  C2, as the code has it. On a resource of the table, \<open>release\<close> aborts with
  \<open>OwnershipViolation\<close> if and only if the owner slot differs from \<open>current\<close>. When the
  caller is the owner: with an empty wait queue the call clears the owner slot and
  changes nothing else; with a head waiter whose status is \<open>PROCESS_WAIT\<close> it clears the
  owner slot, removes the head waiter from the wait queue, sets its status to
  \<open>PROCESS_READY\<close> and appends it to the tail of the ready queue (the owner slot stays
  empty); with a head waiter of any other status it aborts on the second assertion.
\<close>

theorem fcfs_release_spec:
  assumes "0 \<le> rid" and "rid < int (length (resources s))"
  shows "(fcfs_release rid s = Inl OwnershipViolation
            \<longleftrightarrow> owner (resources s ! nat rid) \<noteq> current s)
       \<and> (owner (resources s ! nat rid) = current s \<longrightarrow>
            (case waitqueue (resources s ! nat rid) of
               [] \<Rightarrow>
                 fcfs_release rid s =
                   Inr ((), s\<lparr>resources :=
                     (resources s)[nat rid := (resources s ! nat rid)\<lparr>owner := None\<rparr>]\<rparr>)
             | w # ws \<Rightarrow>
                 if status (procs s w) = PROCESS_WAIT then
                   fcfs_release rid s =
                     Inr ((),
                       s\<lparr>readyqueue := readyqueue s @ [w],
                         resources :=
                           (resources s)[nat rid :=
                             (resources s ! nat rid)\<lparr>owner := None, waitqueue := ws\<rparr>],
                         procs := (procs s)(w := (procs s w)\<lparr>status := PROCESS_READY\<rparr>)\<rparr>)
                 else fcfs_release rid s = Inl WaiterNotWaiting))"
  using assms
  by (auto simp: fcfs_release_def Let_def list_empty_def list_first_entry_def
      list_add_tail_def list_del_init_def split: list.splits)

theorem fcfs_release_spec_witness:
  "fcfs_release 0 release_state =
     Inr ((),
       release_state\<lparr>readyqueue := [0, 2],
         resources := [\<lparr>owner = None, waitqueue = [3]\<rparr>, \<lparr>owner = None, waitqueue = []\<rparr>],
         procs := (procs release_state)(2 := \<lparr>status = PROCESS_READY, age = 1, lifespan = 3\<rparr>)\<rparr>)
   \<and> fcfs_release 1 release_state = Inl OwnershipViolation"
proof -
  have h: "(0::int) \<le> 0" "(0::int) < int (length (resources release_state))"
    "(0::int) \<le> 1" "(1::int) < int (length (resources release_state))"
    by (simp_all add: release_state_def)
  show ?thesis
    using fcfs_release_spec [OF h(1) h(2)] fcfs_release_spec [OF h(3) h(4)]
    by (simp add: release_state_def demo_procs_def)
qed

text \<open>
  C2 as stated fails where the caller owns the resource and the head waiter is not in
  the wait status: the call aborts although the caller is the recorded owner, and wakes
  nobody.
\<close>

theorem fcfs_release_owner_aborts_counterexample:
  "current stale_waiter_state = Some 1
   \<and> owner (resources stale_waiter_state ! 0) = Some 1
   \<and> waitqueue (resources stale_waiter_state ! 0) = [2, 3]
   \<and> status (procs stale_waiter_state 2) = PROCESS_READY
   \<and> fcfs_release 0 stale_waiter_state = Inl WaiterNotWaiting"
  by (simp add: fcfs_release_def stale_waiter_state_def release_state_def demo_procs_def
      list_empty_def list_first_entry_def)

section \<open>Properties of the FIFO scheduler\<close>

text \<open>
  C7. FIFO: a current process that exists, is not waiting and has \<open>age < lifespan\<close> is
  returned again and nothing changes; otherwise the head of the ready queue is removed
  and returned; if the ready queue is empty as well, no process is returned.
\<close>

theorem fifo_schedule_spec:
  fixes s :: "('n::ord) state"
  shows "fifo_schedule s =
    (if (\<exists>c. current s = Some c \<and> status (procs s c) \<noteq> PROCESS_WAIT
             \<and> age (procs s c) < lifespan (procs s c))
     then Inr (current s, s)
     else if readyqueue s \<noteq> []
       then Inr (Some (hd (readyqueue s)), s\<lparr>readyqueue := tl (readyqueue s)\<rparr>)
       else Inr (None, s))"
  by (cases "readyqueue s")
    (auto simp: fifo_schedule_def fifo_pick_next_def list_del_init_def list_empty_def
      list_first_entry_def split: option.splits)

theorem fifo_schedule_spec_witness:
  "fifo_schedule demo_state = Inr (Some 1, demo_state)
   \<and> fifo_schedule (demo_state\<lparr>current := None\<rparr>)
       = Inr (Some 0, demo_state\<lparr>current := None, readyqueue := [2, 3]\<rparr>)
   \<and> fifo_schedule (demo_state\<lparr>current := None, readyqueue := []\<rparr>)
       = Inr (None, demo_state\<lparr>current := None, readyqueue := []\<rparr>)"
  using fifo_schedule_spec [of demo_state]
    fifo_schedule_spec [of "demo_state\<lparr>current := None\<rparr>"]
    fifo_schedule_spec [of "demo_state\<lparr>current := None, readyqueue := []\<rparr>"]
  by (simp add: demo_state_def demo_procs_def)

section \<open>The scan of the ready queue\<close>

lemma first_min_Cons_0: "\<forall>y\<in>set xs. k x \<le> k y \<Longrightarrow> first_min k (x # xs) 0"
  by (auto simp: first_min_def nth_Cons split: nat.splits)

lemma first_min_Cons_Suc:
  "first_min k xs i \<Longrightarrow> k (xs ! i) < k x \<Longrightarrow> first_min k (x # xs) (Suc i)"
  by (auto simp: first_min_def nth_Cons split: nat.splits)

lemma scan_by_cases:
  "(scan_by k cur xs = cur \<and> (\<forall>x\<in>set xs. k cur \<le> k x))
   \<or> (\<exists>i. first_min k xs i \<and> scan_by k cur xs = xs ! i \<and> k (xs ! i) < k cur)"
proof (induction xs arbitrary: cur)
  case Nil
  then show ?case by simp
next
  case (Cons x xs)
  show ?case
  proof (cases "k x < k cur")
    case True
    from Cons.IH [of x] show ?thesis
    proof
      assume "scan_by k x xs = x \<and> (\<forall>y\<in>set xs. k x \<le> k y)"
      with True have "first_min k (x # xs) 0 \<and> scan_by k cur (x # xs) = (x # xs) ! 0
          \<and> k ((x # xs) ! 0) < k cur"
        by (simp add: first_min_Cons_0)
      then show ?thesis by blast
    next
      assume "\<exists>i. first_min k xs i \<and> scan_by k x xs = xs ! i \<and> k (xs ! i) < k x"
      then obtain i where i: "first_min k xs i" "scan_by k x xs = xs ! i" "k (xs ! i) < k x"
        by blast
      with True have "first_min k (x # xs) (Suc i)
          \<and> scan_by k cur (x # xs) = (x # xs) ! Suc i \<and> k ((x # xs) ! Suc i) < k cur"
        by (auto simp: first_min_Cons_Suc)
      then show ?thesis by blast
    qed
  next
    case False
    from Cons.IH [of cur] show ?thesis
    proof
      assume "scan_by k cur xs = cur \<and> (\<forall>y\<in>set xs. k cur \<le> k y)"
      with False show ?thesis by auto
    next
      assume "\<exists>i. first_min k xs i \<and> scan_by k cur xs = xs ! i \<and> k (xs ! i) < k cur"
      then obtain i where i: "first_min k xs i" "scan_by k cur xs = xs ! i" "k (xs ! i) < k cur"
        by blast
      with False have "first_min k (x # xs) (Suc i)
          \<and> scan_by k cur (x # xs) = (x # xs) ! Suc i \<and> k ((x # xs) ! Suc i) < k cur"
        by (auto simp: first_min_Cons_Suc)
      then show ?thesis by blast
    qed
  qed
qed

lemma scan_by_first_entry:
  assumes "xs \<noteq> []"
  shows "\<exists>i. first_min k xs i \<and> scan_by k (hd xs) xs = xs ! i"
proof -
  from assms obtain x rest where xs: "xs = x # rest" by (cases xs) auto
  from scan_by_cases [of k x rest] show ?thesis
  proof
    assume "scan_by k x rest = x \<and> (\<forall>y\<in>set rest. k x \<le> k y)"
    then have "first_min k xs 0 \<and> scan_by k (hd xs) xs = xs ! 0"
      by (simp add: xs first_min_Cons_0)
    then show ?thesis by blast
  next
    assume "\<exists>i. first_min k rest i \<and> scan_by k x rest = rest ! i \<and> k (rest ! i) < k x"
    then obtain i where "first_min k rest i" "scan_by k x rest = rest ! i" "k (rest ! i) < k x"
      by blast
    then have "first_min k xs (Suc i) \<and> scan_by k (hd xs) xs = xs ! Suc i"
      by (simp add: xs first_min_Cons_Suc)
    then show ?thesis by blast
  qed
qed

lemma remove1_nth_first:
  "i < length xs \<Longrightarrow> \<forall>j<i. xs ! j \<noteq> xs ! i \<Longrightarrow> remove1 (xs ! i) xs = take i xs @ drop (Suc i) xs"
proof (induction xs arbitrary: i)
  case Nil
  then show ?case by simp
next
  case (Cons x xs)
  show ?case
  proof (cases i)
    case 0
    then show ?thesis by simp
  next
    case (Suc n)
    with Cons.prems have n: "n < length xs" and ne: "\<forall>j<n. xs ! j \<noteq> xs ! n" and "x \<noteq> xs ! n"
      by auto
    with Cons.IH [OF n ne] Suc show ?thesis by simp
  qed
qed

lemma first_min_remove1:
  "first_min k xs i \<Longrightarrow> remove1 (xs ! i) xs = take i xs @ drop (Suc i) xs"
  by (rule remove1_nth_first) (auto simp: first_min_def)

lemma list_empty_iff: "list_empty q \<longleftrightarrow> q = []"
  by (cases q) (simp_all add: list_empty_def)

lemma sjf_scan_scan_by:
  fixes ps :: "pref \<Rightarrow> ('n::linorder) process"
  shows "sjf_scan ps cur xs = scan_by (\<lambda>p. lifespan (ps p)) cur xs"
  by (induction xs arbitrary: cur) auto

lemma srtf_scan_scan_by:
  fixes ps :: "pref \<Rightarrow> ('n::{minus,linorder}) process"
  shows "srtf_scan ps init xs = scan_by (\<lambda>p. remaining (ps p)) init xs"
  by (induction xs arbitrary: init) (auto simp: remaining_def)

section \<open>Properties of the SJF scheduler\<close>

lemma sjf_skip_first_min:
  fixes s :: "('n::linorder) state"
  assumes "readyqueue s \<noteq> []"
  shows "\<exists>i. first_min (\<lambda>p. lifespan (procs s p)) (readyqueue s) i
      \<and> sjf_skip s =
          Inr (Some (readyqueue s ! i),
               s\<lparr>current := Some (readyqueue s ! i),
                 readyqueue := take i (readyqueue s) @ drop (Suc i) (readyqueue s)\<rparr>)"
proof -
  from scan_by_first_entry [OF assms, of "\<lambda>p. lifespan (procs s p)"]
  obtain i where i: "first_min (\<lambda>p. lifespan (procs s p)) (readyqueue s) i"
    and scan: "sjf_scan (procs s) (hd (readyqueue s)) (readyqueue s) = readyqueue s ! i"
    by (auto simp: sjf_scan_scan_by)
  have "sjf_skip s =
      Inr (Some (readyqueue s ! i),
           s\<lparr>current := Some (readyqueue s ! i),
             readyqueue := take i (readyqueue s) @ drop (Suc i) (readyqueue s)\<rparr>)"
    using list_empty_iff [of "readyqueue s"] assms scan first_min_remove1 [OF i]
    by (simp add: sjf_skip_def Let_def list_first_entry_def list_del_init_def)
  with i show ?thesis by blast
qed

text \<open>
  C6. SJF, when a new pick is needed (no current process that is not waiting and has
  \<open>age < lifespan\<close>) and the ready queue is not empty: the process removed from the
  ready queue and returned has the minimum lifespan of all members, and it is the first
  such member in queue order (every earlier member has a strictly larger lifespan).
\<close>

theorem sjf_schedule_picks_first_shortest:
  fixes s :: "('n::linorder) state"
  assumes "readyqueue s \<noteq> []"
    and "\<not> (\<exists>c. current s = Some c \<and> status (procs s c) \<noteq> PROCESS_WAIT
               \<and> age (procs s c) < lifespan (procs s c))"
  shows "\<exists>i. first_min (\<lambda>p. lifespan (procs s p)) (readyqueue s) i
      \<and> sjf_schedule s =
          Inr (Some (readyqueue s ! i),
               s\<lparr>current := Some (readyqueue s ! i),
                 readyqueue := take i (readyqueue s) @ drop (Suc i) (readyqueue s)\<rparr>)"
proof -
  have "sjf_schedule s = sjf_skip s"
    using assms(2) by (auto simp: sjf_schedule_def split: option.splits)
  with sjf_skip_first_min [OF assms(1)] show ?thesis by simp
qed

theorem sjf_schedule_picks_first_shortest_witness:
  "readyqueue (demo_state\<lparr>current := None\<rparr>) = [0, 2, 3]
   \<and> current (demo_state\<lparr>current := None\<rparr>) = None
   \<and> lifespan (demo_procs 0) = 4 \<and> lifespan (demo_procs 2) = 3 \<and> lifespan (demo_procs 3) = 3
   \<and> sjf_schedule (demo_state\<lparr>current := None\<rparr>)
       = Inr (Some 2, demo_state\<lparr>current := Some 2, readyqueue := [0, 3]\<rparr>)"
proof -
  have h: "readyqueue (demo_state\<lparr>current := None\<rparr>) \<noteq> []"
    "\<not> (\<exists>c. current (demo_state\<lparr>current := None\<rparr>) = Some c
          \<and> status (procs (demo_state\<lparr>current := None\<rparr>) c) \<noteq> PROCESS_WAIT
          \<and> age (procs (demo_state\<lparr>current := None\<rparr>) c)
              < lifespan (procs (demo_state\<lparr>current := None\<rparr>) c))"
    by (simp_all add: demo_state_def)
  have run: "sjf_schedule (demo_state\<lparr>current := None\<rparr>)
       = Inr (Some 2, demo_state\<lparr>current := Some 2, readyqueue := [0, 3]\<rparr>)"
    by (simp add: sjf_schedule_def sjf_skip_def list_empty_def list_first_entry_def
        list_del_init_def demo_state_def demo_procs_def)
  have vals: "readyqueue (demo_state\<lparr>current := None\<rparr>) = [0, 2, 3]"
    "current (demo_state\<lparr>current := None\<rparr>) = None"
    "lifespan (demo_procs 0) = 4" "lifespan (demo_procs 2) = 3" "lifespan (demo_procs 3) = 3"
    by (simp_all add: demo_state_def demo_procs_def)
  from sjf_schedule_picks_first_shortest [OF h] run vals show ?thesis by simp
qed

section \<open>Properties of the SRTF scheduler\<close>

text \<open>
  C3. SRTF with a non-empty ready queue and a current process that is not waiting and
  has \<open>age < lifespan\<close>: let \<open>m\<close> be the first member of the ready queue with the
  minimum remaining time. If the remaining time of the current process is at most that
  of \<open>m\<close>, the current process is returned and nothing changes; otherwise \<open>m\<close> is
  removed from the ready queue, the current process is inserted at its head, and \<open>m\<close>
  is returned.
\<close>

theorem srtf_schedule_preemption:
  fixes s :: "('n::{minus,linorder}) state"
  assumes "readyqueue s \<noteq> []" and "current s = Some c"
    and "status (procs s c) \<noteq> PROCESS_WAIT" and "age (procs s c) < lifespan (procs s c)"
  shows "\<exists>i. first_min (\<lambda>p. remaining (procs s p)) (readyqueue s) i
      \<and> (if remaining (procs s c) \<le> remaining (procs s (readyqueue s ! i))
         then srtf_schedule s = Inr (Some c, s)
         else srtf_schedule s =
           Inr (Some (readyqueue s ! i),
                s\<lparr>readyqueue := c # (take i (readyqueue s) @ drop (Suc i) (readyqueue s))\<rparr>))"
proof -
  from scan_by_first_entry [OF assms(1), of "\<lambda>p. remaining (procs s p)"]
  obtain i where i: "first_min (\<lambda>p. remaining (procs s p)) (readyqueue s) i"
    and scan: "srtf_scan (procs s) (hd (readyqueue s)) (readyqueue s) = readyqueue s ! i"
    by (auto simp: srtf_scan_scan_by)
  have "if remaining (procs s c) \<le> remaining (procs s (readyqueue s ! i))
         then srtf_schedule s = Inr (Some c, s)
         else srtf_schedule s =
           Inr (Some (readyqueue s ! i),
                s\<lparr>readyqueue := c # (take i (readyqueue s) @ drop (Suc i) (readyqueue s))\<rparr>)"
    using list_empty_iff [of "readyqueue s"] assms scan first_min_remove1 [OF i]
    by (auto simp: srtf_schedule_def Let_def list_first_entry_def list_del_init_def
        list_add_def remaining_def)
  with i show ?thesis by blast
qed

theorem srtf_schedule_preemption_witness:
  "readyqueue demo_state = [0, 2, 3] \<and> current demo_state = Some 1
   \<and> status (procs demo_state 1) \<noteq> PROCESS_WAIT
   \<and> age (procs demo_state 1) < lifespan (procs demo_state 1)
   \<and> remaining (procs demo_state 1) = 5 \<and> remaining (procs demo_state 0) = 4
   \<and> remaining (procs demo_state 2) = 3 \<and> remaining (procs demo_state 3) = 3
   \<and> srtf_schedule demo_state = Inr (Some 2, demo_state\<lparr>readyqueue := [1, 0, 3]\<rparr>)
   \<and> srtf_schedule (demo_state\<lparr>readyqueue := [0]\<rparr>)
       = Inr (Some 0, demo_state\<lparr>readyqueue := [1]\<rparr>)
   \<and> srtf_schedule (demo_state\<lparr>current := Some 2, readyqueue := [0, 3]\<rparr>)
       = Inr (Some 2, demo_state\<lparr>current := Some 2, readyqueue := [0, 3]\<rparr>)"
proof -
  have h: "readyqueue demo_state \<noteq> []" "current demo_state = Some 1"
    "status (procs demo_state 1) \<noteq> PROCESS_WAIT"
    "age (procs demo_state 1) < lifespan (procs demo_state 1)"
    by (simp_all add: demo_state_def demo_procs_def)
  have vals: "readyqueue demo_state = [0, 2, 3]"
    "remaining (procs demo_state 1) = 5" "remaining (procs demo_state 0) = 4"
    "remaining (procs demo_state 2) = 3" "remaining (procs demo_state 3) = 3"
    by (simp_all add: demo_state_def demo_procs_def remaining_def)
  have run: "srtf_schedule demo_state = Inr (Some 2, demo_state\<lparr>readyqueue := [1, 0, 3]\<rparr>)"
    "srtf_schedule (demo_state\<lparr>readyqueue := [0]\<rparr>)
       = Inr (Some 0, demo_state\<lparr>readyqueue := [1]\<rparr>)"
    "srtf_schedule (demo_state\<lparr>current := Some 2, readyqueue := [0, 3]\<rparr>)
       = Inr (Some 2, demo_state\<lparr>current := Some 2, readyqueue := [0, 3]\<rparr>)"
    by (simp_all add: srtf_schedule_def list_empty_def list_first_entry_def
        list_del_init_def list_add_def demo_state_def demo_procs_def)
  from srtf_schedule_preemption [OF h] h vals run show ?thesis by simp
qed

section \<open>Eligibility of the process returned\<close>

text \<open>
  The schedulers return a member of the ready queue without looking at its status or
  age: they rely on the ready queue holding eligible processes only. Under this
  invariant FIFO and SJF return eligible processes only, and so does SRTF except in its
  last branch (empty ready queue), where a waiting current process passes the test.
\<close>

lemma fifo_schedule_returns_eligible:
  fixes s :: "('n::ord) state"
  assumes "\<forall>q\<in>set (readyqueue s). eligible (procs s q)"
    and "fifo_schedule s = Inr (Some p, s')"
  shows "eligible (procs s' p)"
  using assms
  by (cases "readyqueue s")
    (auto simp: fifo_schedule_def fifo_pick_next_def list_empty_def list_first_entry_def
      eligible_def split: option.splits if_splits)

lemma sjf_schedule_returns_eligible:
  fixes s :: "('n::linorder) state"
  assumes inv: "\<forall>q\<in>set (readyqueue s). eligible (procs s q)"
    and run: "sjf_schedule s = Inr (Some p, s')"
  shows "eligible (procs s' p)"
proof (cases "\<exists>c. current s = Some c \<and> status (procs s c) \<noteq> PROCESS_WAIT
               \<and> age (procs s c) < lifespan (procs s c)")
  case True
  with run show ?thesis
    by (auto simp: sjf_schedule_def eligible_def)
next
  case False
  then have skip: "sjf_schedule s = sjf_skip s"
    by (auto simp: sjf_schedule_def split: option.splits)
  show ?thesis
  proof (cases "readyqueue s = []")
    case True
    with run skip show ?thesis by (simp add: sjf_skip_def list_empty_def)
  next
    case ne: False
    from sjf_skip_first_min [OF ne] run skip
    obtain i where "i < length (readyqueue s)" "p = readyqueue s ! i" "procs s' = procs s"
      by (auto simp: first_min_def)
    with inv show ?thesis by simp
  qed
qed

lemma srtf_schedule_returns_eligible:
  fixes s :: "('n::{minus,linorder}) state"
  assumes inv: "\<forall>q\<in>set (readyqueue s). eligible (procs s q)"
    and run: "srtf_schedule s = Inr (Some p, s')"
    and ok: "readyqueue s \<noteq> [] \<or> (\<forall>c. current s = Some c \<longrightarrow> status (procs s c) \<noteq> PROCESS_WAIT)"
  shows "eligible (procs s' p)"
proof (cases "readyqueue s = []")
  case True
  with run ok show ?thesis
    by (auto simp: srtf_schedule_def list_empty_def eligible_def split: option.splits if_splits)
next
  case ne: False
  from scan_by_first_entry [OF ne, of "\<lambda>p. remaining (procs s p)"]
  obtain i where "i < length (readyqueue s)"
    and scan: "srtf_scan (procs s) (hd (readyqueue s)) (readyqueue s) = readyqueue s ! i"
    by (auto simp: srtf_scan_scan_by first_min_def)
  with inv have "eligible (procs s (srtf_scan (procs s) (hd (readyqueue s)) (readyqueue s)))"
    by simp
  with run ne list_empty_iff [of "readyqueue s"] show ?thesis
    by (auto simp: srtf_schedule_def Let_def list_first_entry_def eligible_def
        split: option.splits if_splits)
qed


text \<open>
  C4. With an empty ready queue and no current process, \<open>srtf_schedule\<close> does not
  return "no process": the condition of its last \<^verbatim>\<open>if\<close> reads \<^verbatim>\<open>current->status\<close>
  through the null pointer. The two sibling schedulers return "no process" there.
\<close>

theorem srtf_schedule_idle_faults:
  fixes s :: "('n::{minus,ord}) state"
  assumes "readyqueue s = []" and "current s = None"
  shows "srtf_schedule s = Inl NullDereference"
  using assms by (simp add: srtf_schedule_def list_empty_def)

theorem srtf_schedule_idle_faults_witness:
  "readyqueue idle_state = [] \<and> current idle_state = None
   \<and> srtf_schedule idle_state = Inl NullDereference
   \<and> fifo_schedule idle_state = Inr (None, idle_state)
   \<and> sjf_schedule idle_state = Inr (None, idle_state)"
proof -
  have h: "readyqueue idle_state = []" "current idle_state = None"
    by (simp_all add: idle_state_def)
  have "fifo_schedule idle_state = Inr (None, idle_state)"
    "sjf_schedule idle_state = Inr (None, idle_state)"
    using h by (simp_all add: fifo_schedule_def fifo_pick_next_def sjf_schedule_def
        sjf_skip_def list_empty_def)
  with h srtf_schedule_idle_faults [OF h] show ?thesis by simp
qed

text \<open>
  C5. In the deadlock state the ready queue is empty and the current process is in the
  wait status with \<open>age < lifespan\<close>; \<open>srtf_schedule\<close> returns this waiting process,
  where \<open>fifo_schedule\<close> and \<open>sjf_schedule\<close> return "no process".
\<close>

theorem srtf_schedule_returns_waiting_current:
  "readyqueue deadlock_state = []
   \<and> current deadlock_state = Some 1
   \<and> status (procs deadlock_state 1) = PROCESS_WAIT
   \<and> srtf_schedule deadlock_state = Inr (Some 1, deadlock_state)
   \<and> fifo_schedule deadlock_state = Inr (None, deadlock_state)
   \<and> sjf_schedule deadlock_state = Inr (None, deadlock_state)"
  by (simp add: deadlock_state_def demo_procs_def srtf_schedule_def fifo_schedule_def
      fifo_pick_next_def sjf_schedule_def sjf_skip_def list_empty_def)

section \<open>Policy tables\<close>

text \<open>
  C8. A policy table is rejected at initialisation with \<open>PolicyNotImplemented\<close> exactly
  when one of its five callbacks is missing; the tables of the Round-Robin, Priority and
  Priority-Inheritance variants are rejected.
\<close>

theorem policy_init_rejects_missing_callbacks:
  fixes sch :: "'n scheduler" and s :: "'n state"
  shows "(policy_init sch s = Inl PolicyNotImplemented
           \<longleftrightarrow> schedule sch = None \<or> initialize sch = None \<or> finalize sch = None
               \<or> acquire sch = None \<or> release sch = None)
       \<and> policy_init rr_scheduler s = Inl PolicyNotImplemented
       \<and> policy_init prio_scheduler s = Inl PolicyNotImplemented
       \<and> policy_init pip_scheduler s = Inl PolicyNotImplemented"
  by (auto simp: policy_init_def rr_scheduler_def prio_scheduler_def pip_scheduler_def
      split: option.splits)

theorem policy_init_rejects_missing_callbacks_witness:
  "policy_init rr_scheduler demo_state = Inl PolicyNotImplemented
   \<and> policy_init prio_scheduler demo_state = Inl PolicyNotImplemented
   \<and> policy_init pip_scheduler demo_state = Inl PolicyNotImplemented
   \<and> policy_init fifo_scheduler demo_state = Inr (0, demo_state)
   \<and> policy_init sjf_scheduler demo_state = Inr (0, demo_state)
   \<and> policy_init srtf_scheduler demo_state = Inr (0, demo_state)"
  using policy_init_rejects_missing_callbacks [of fifo_scheduler demo_state]
  by (simp add: policy_init_def fifo_scheduler_def sjf_scheduler_def srtf_scheduler_def
      fifo_initialize_def sjf_initialize_def srtf_initialize_def)

section \<open>Determinism\<close>

lemma same_core_fcfs_acquire:
  "same_core s t \<Longrightarrow> same_outcome (fcfs_acquire rid s) (fcfs_acquire rid t)"
  by (auto simp: same_core_def fcfs_acquire_def Let_def split: option.splits)

lemma same_core_fcfs_release:
  "same_core s t \<Longrightarrow> same_outcome (fcfs_release rid s) (fcfs_release rid t)"
  by (auto simp: same_core_def fcfs_release_def Let_def)

lemma same_core_fifo_schedule:
  "same_core s t \<Longrightarrow> same_outcome (fifo_schedule s) (fifo_schedule t)"
  by (auto simp: same_core_def fifo_schedule_def fifo_pick_next_def Let_def split: option.splits)

lemma same_core_sjf_schedule:
  "same_core s t \<Longrightarrow> same_outcome (sjf_schedule s) (sjf_schedule t)"
  by (auto simp: same_core_def sjf_schedule_def sjf_skip_def Let_def split: option.splits)

lemma same_core_srtf_schedule:
  "same_core s t \<Longrightarrow> same_outcome (srtf_schedule s) (srtf_schedule t)"
  by (auto simp: same_core_def srtf_schedule_def Let_def split: option.splits)

lemma same_outcome_map:
  "same_outcome a b \<Longrightarrow>
     same_outcome (map_sum id (map_prod f id) a) (map_sum id (map_prod f id) b)"
  by (cases "(a, b)" rule: same_outcome.cases) auto

lemma same_core_exec_op:
  "same_core s t \<Longrightarrow> same_outcome (exec_op x s) (exec_op x t)"
  by (cases x)
    (simp_all add: same_outcome_map same_core_fcfs_acquire same_core_fcfs_release
      same_core_fifo_schedule same_core_sjf_schedule same_core_srtf_schedule)

lemma same_outcome_cases:
  assumes "same_outcome a b"
  shows "(\<exists>e. a = Inl e \<and> b = Inl e)
       \<or> (\<exists>x s t. a = Inr (x, s) \<and> b = Inr (x, t) \<and> same_core s t)"
proof (cases a)
  case (Inl e)
  with assms show ?thesis by (cases b) auto
next
  case (Inr v)
  with assms show ?thesis by (cases b; cases v) auto
qed

lemma same_core_exec_ops:
  "same_core s t \<Longrightarrow> same_outcome (exec_ops xs s) (exec_ops xs t)"
proof (induction xs arbitrary: s t)
  case Nil
  then show ?case by simp
next
  case (Cons x xs)
  from same_outcome_cases [OF same_core_exec_op [OF Cons.prems, of x]] show ?case
  proof
    assume "\<exists>e. exec_op x s = Inl e \<and> exec_op x t = Inl e"
    then show ?thesis by auto
  next
    assume "\<exists>r s' t'. exec_op x s = Inr (r, s') \<and> exec_op x t = Inr (r, t') \<and> same_core s' t'"
    then obtain r s' t' where step: "exec_op x s = Inr (r, s')" "exec_op x t = Inr (r, t')"
      and core: "same_core s' t'"
      by blast
    from same_outcome_cases [OF Cons.IH [OF core]] step show ?thesis
      by auto
  qed
qed

text \<open>
  C9. Every core operation, and every sequence of core operations, started from two
  states with the same process records, resource table, ready queue and \<open>current\<close>
  gives the same outcome: the same fault, or the same returned values and states that
  again agree on these four components.
\<close>

theorem core_operations_deterministic:
  assumes "same_core s t"
  shows "same_outcome (exec_op x s) (exec_op x t)
       \<and> same_outcome (exec_ops xs s) (exec_ops xs t)"
  using assms by (simp add: same_core_exec_op same_core_exec_ops)

theorem core_operations_deterministic_witness:
  "same_core demo_state (demo_state\<lparr>ticks := 99, quiet := True\<rparr>)
   \<and> demo_state \<noteq> demo_state\<lparr>ticks := 99, quiet := True\<rparr>
   \<and> same_outcome
        (exec_ops [Srtf_schedule, Fcfs_acquire 0, Fcfs_release 0] demo_state)
        (exec_ops [Srtf_schedule, Fcfs_acquire 0, Fcfs_release 0]
           (demo_state\<lparr>ticks := 99, quiet := True\<rparr>))
   \<and> map_sum id fst (exec_ops [Srtf_schedule, Fcfs_acquire 0, Fcfs_release 0] demo_state)
       = Inr [Scheduled (Some 2), Acquired True, Released]"
proof -
  have h: "same_core demo_state (demo_state\<lparr>ticks := 99, quiet := True\<rparr>)"
    by (simp add: same_core_def)
  have ne: "demo_state \<noteq> demo_state\<lparr>ticks := 99, quiet := True\<rparr>"
    by (simp add: demo_state_def)
  have run: "map_sum id fst (exec_ops [Srtf_schedule, Fcfs_acquire 0, Fcfs_release 0] demo_state)
       = Inr [Scheduled (Some 2), Acquired True, Released]"
    by (simp add: srtf_schedule_def fcfs_acquire_def fcfs_release_def list_empty_def
        list_first_entry_def list_del_init_def list_add_def demo_state_def demo_procs_def)
  from core_operations_deterministic
    [OF h, of Srtf_schedule "[Srtf_schedule, Fcfs_acquire 0, Fcfs_release 0]"]
  have "same_outcome
        (exec_ops [Srtf_schedule, Fcfs_acquire 0, Fcfs_release 0] demo_state)
        (exec_ops [Srtf_schedule, Fcfs_acquire 0, Fcfs_release 0]
           (demo_state\<lparr>ticks := 99, quiet := True\<rparr>))"
    by (rule conjunct2)
  with h ne run show ?thesis by blast
qed

end
